theory Spec2Isabelle
  imports Main "HOL-Library.Word"
begin

section \<open>The conversation orchestrator of the Nano Banana Agent (src/App.tsx)\<close>

text \<open>
  The component \<open>App\<close> keeps six pieces of state (\<open>useState\<close>) and four handlers
  matter here: \<open>handleSendMessage\<close>, \<open>handleUpdateMessage\<close>, \<open>clearChat\<close> and
  \<open>exportChatHistory\<close>. The state is a record, every setter call is a state
  update that is also written to a log, and every call of a capability of the AI
  client (\<open>gemini\<close>) is written to the same log, so that the order of updates and
  calls of one exchange can be read off the log. A rejected promise and a thrown
  \<open>TypeError\<close> are values of the type \<open>error\<close>.

  A JavaScript string is the list of its UTF-16 code units; a value that may be \<open>null\<close>
  or \<open>undefined\<close> is an \<open>option\<close>.
\<close>

subsection \<open>Strings\<close>

text \<open>
  A string of the program is a sequence of 16-bit code units. \<open>code\<close> is the code unit of
  an ASCII character and \<open>js\<close> the string of an ASCII literal of the source.
\<close>

type_synonym code_unit = "16 word"

type_synonym js_string = "code_unit list"

abbreviation code :: "char \<Rightarrow> code_unit" where
  "code \<equiv> of_char"

definition js :: "char list \<Rightarrow> js_string" where
  "js s = map code s"

subsection \<open>Data model\<close>

text \<open>
  Modelled from the spec: the file \<open>types.ts\<close>, which declares \<open>Message\<close> and \<open>Role\<close>,
  is not among the sources. A part of a turn is an object that carries a \<open>text\<close> or an
  \<open>image\<close> (a data-URI); the handlers read both fields of every part and test them for
  truthiness, so a part is a record of two optional fields. The fields are prefixed
  because \<open>text\<close> and \<open>image\<close> are taken in Isabelle.
\<close>

datatype Role = USER | AGENT

record MessageContent =
  part_text :: "js_string option"
  part_image :: "js_string option"

record Message =
  msg_id :: js_string
  msg_role :: Role
  msg_content :: "MessageContent list"
  msg_timestamp :: nat
  isPending :: "bool option"

record app_state =
  messages :: "Message list"
  inputValue :: js_string
  isTyping :: bool
  isImageMode :: bool
  isListening :: bool
  pendingImage :: "js_string option"

text \<open>The request shape of the AI client: \<open>{text}\<close> or \<open>{inlineData: {data, mimeType}}\<close>.\<close>

datatype Part = TextPart js_string | InlineData "js_string option" "js_string option"

record Content =
  role :: js_string
  parts :: "Part list"

datatype error = Rejected | TypeError

datatype call =
    ShouldGenerateImage js_string
  | GenerateTextResponse js_string "Content list option" "js_string option"
  | GenerateImage js_string

datatype event =
    Update app_state
  | Invoke call
  | StopRecognition
  | ConsoleError error
  | Alert js_string
  | Download js_string js_string

text \<open>
  What the handler reads from outside the component: the clock (\<open>Date.now()\<close> and
  \<open>new Date()\<close> at the two places where a turn is created) and the three capabilities of
  \<open>services/geminiService\<close>, which is not among the sources. A promise that rejects is
  \<open>None\<close>.
\<close>

record env =
  now_user :: nat
  date_user :: nat
  now_bot :: nat
  date_bot :: nat
  shouldGenerateImage :: "js_string \<Rightarrow> bool"
  generateTextResponse :: "js_string \<Rightarrow> Content list option \<Rightarrow> js_string option \<Rightarrow> js_string option"
  generateImage :: "js_string \<Rightarrow> js_string option"

record export_env =
  toLocaleString :: js_string
  toLocaleTimeString :: "nat \<Rightarrow> js_string"
  toISOString :: js_string

subsection \<open>JavaScript primitives\<close>

text \<open>\<open>if (x)\<close> on a string that may be \<open>null\<close>: the empty string is falsy.\<close>

fun truthy :: "js_string option \<Rightarrow> bool" where
  "truthy None = False"
| "truthy (Some s) = (s \<noteq> [])"

text \<open>
  \<open>String.prototype.trim\<close> strips the code points of ECMAScript's \<open>WhiteSpace\<close> and
  \<open>LineTerminator\<close> from both ends: tab, line feed, vertical tab, form feed, carriage
  return, space, no-break space, U+1680, U+2000 to U+200A, U+2028, U+2029, U+202F, U+205F,
  U+3000 and U+FEFF. Each is one code unit.
\<close>

definition whitespace :: "code_unit \<Rightarrow> bool" where
  "whitespace c \<longleftrightarrow>
     c \<in> {0x0009, 0x000A, 0x000B, 0x000C, 0x000D, 0x0020, 0x00A0, 0x1680,
          0x2000, 0x2001, 0x2002, 0x2003, 0x2004, 0x2005, 0x2006, 0x2007, 0x2008, 0x2009, 0x200A,
          0x2028, 0x2029, 0x202F, 0x205F, 0x3000, 0xFEFF}"

definition trim :: "js_string \<Rightarrow> js_string" where
  "trim s = rev (dropWhile whitespace (rev (dropWhile whitespace s)))"

text \<open>\<open>s.split(c)\<close> for a separator of one code unit: never empty, also on the empty string.\<close>

fun split :: "code_unit \<Rightarrow> js_string \<Rightarrow> js_string list" where
  "split c [] = [[]]"
| "split c (x # xs) =
     (if x = c then [] # split c xs
      else (case split c xs of [] \<Rightarrow> [[x]] | p # ps \<Rightarrow> (x # p) # ps))"

text \<open>\<open>xs[i]\<close>: \<open>undefined\<close> out of range.\<close>

fun index :: "'a list \<Rightarrow> nat \<Rightarrow> 'a option" where
  "index [] i = None"
| "index (x # xs) 0 = Some x"
| "index (x # xs) (Suc i) = index xs i"

text \<open>\<open>xs.slice(-n)\<close>: the last \<open>n\<close> elements, the whole array when it is shorter.\<close>

definition slice_last :: "nat \<Rightarrow> 'a list \<Rightarrow> 'a list" where
  "slice_last n xs = drop (length xs - n) xs"

text \<open>\<open>n.toString()\<close> for a non-negative integer.\<close>

definition digit :: "nat \<Rightarrow> code_unit" where
  "digit d = of_nat (48 + d)"

fun toString :: "nat \<Rightarrow> js_string" where
  "toString n = (if n < 10 then [digit n] else toString (n div 10) @ [digit (n mod 10)])"

declare toString.simps [simp del]

text \<open>\<open>xs.map(f)\<close> where \<open>f\<close> may throw: the first exception leaves the map.\<close>

fun map_throwing :: "('a \<Rightarrow> error + 'b) \<Rightarrow> 'a list \<Rightarrow> error + 'b list" where
  "map_throwing f [] = Inr []"
| "map_throwing f (x # xs) =
     (case f x of
        Inl e \<Rightarrow> Inl e
      | Inr y \<Rightarrow> (case map_throwing f xs of Inl e \<Rightarrow> Inl e | Inr ys \<Rightarrow> Inr (y # ys)))"

subsection \<open>The state and its log\<close>

type_synonym run = "app_state \<times> event list"

definition setState :: "(app_state \<Rightarrow> app_state) \<Rightarrow> run \<Rightarrow> run" where
  "setState f r = (f (fst r), snd r @ [Update (f (fst r))])"

definition emit :: "event \<Rightarrow> run \<Rightarrow> run" where
  "emit e r = (fst r, snd r @ [e])"

text \<open>
  \<open>setMessages(prev => prev.map(msg => msg.id === botMessageId ? {...msg, content,
  isPending} : msg))\<close>, the update of lines 147, 154, 174 and 182.
\<close>

definition set_bot :: "js_string \<Rightarrow> MessageContent list \<Rightarrow> bool \<Rightarrow> app_state \<Rightarrow> app_state" where
  "set_bot botMessageId c p s =
     s\<lparr>messages :=
         map (\<lambda>msg. if msg_id msg = botMessageId
                     then msg\<lparr>msg_content := c, isPending := Some p\<rparr> else msg)
             (messages s)\<rparr>"

definition text_part :: "js_string \<Rightarrow> MessageContent" where
  "text_part t = \<lparr>part_text = Some t, part_image = None\<rparr>"

definition image_part :: "js_string \<Rightarrow> MessageContent" where
  "image_part u = \<lparr>part_text = None, part_image = Some u\<rparr>"

text \<open>\<open>handleUpdateMessage\<close>, lines 93 to 97.\<close>

definition handleUpdateMessage :: "js_string \<Rightarrow> MessageContent list \<Rightarrow> app_state \<Rightarrow> app_state" where
  "handleUpdateMessage messageId updatedContent s =
     s\<lparr>messages :=
         map (\<lambda>msg. if msg_id msg = messageId then msg\<lparr>msg_content := updatedContent\<rparr> else msg)
             (messages s)\<rparr>"

text \<open>\<open>clearChat\<close>, lines 207 to 211; the answer to \<open>window.confirm\<close> is an argument.\<close>

definition clearChat :: "bool \<Rightarrow> app_state \<Rightarrow> app_state" where
  "clearChat confirmed s = (if confirmed then s\<lparr>messages := []\<rparr> else s)"

subsection \<open>The history of the text path, lines 160 to 171\<close>

definition map_part :: "MessageContent \<Rightarrow> error + Part" where
  "map_part c =
     (if truthy (part_text c) then Inr (TextPart (the (part_text c)))
      else if truthy (part_image c) then
        (let pieces = split (code CHR '','') (the (part_image c));
             data = index pieces 1
         in case index pieces 0 of
              None \<Rightarrow> Inl TypeError
            | Some header \<Rightarrow>
                (case index (split (code CHR '':'') header) 1 of
                   None \<Rightarrow> Inl TypeError
                 | Some rest \<Rightarrow> Inr (InlineData data (index (split (code CHR '';'') rest) 0))))
      else Inr (TextPart []))"

definition history_entry :: "Message \<Rightarrow> error + Content" where
  "history_entry m =
     (case map_throwing map_part (msg_content m) of
        Inl e \<Rightarrow> Inl e
      | Inr ps \<Rightarrow> Inr \<lparr>role = (if msg_role m = USER then js ''user'' else js ''model''), parts = ps\<rparr>)"

definition build_history :: "Message list \<Rightarrow> error + Content list" where
  "build_history msgs = map_throwing history_entry (slice_last 6 msgs)"

subsection \<open>\<open>handleSendMessage\<close>, lines 99 to 190\<close>

definition acknowledgement :: "js_string \<Rightarrow> js_string" where
  "acknowledgement userText =
     js ''Initiating Banana Vision... Crafting high-fidelity visualization for: '' @ [0x22]
     @ userText @ [0x22]"

definition confirm_prompt :: "js_string \<Rightarrow> js_string" where
  "confirm_prompt userText =
     js ''The user wants to visualize: '' @ [0x22] @ userText @ [0x22]
     @ js ''. Confirm you are generating it.''"

definition failure_text :: js_string where
  "failure_text = js ''The generation failed. Please refine your prompt and try again.''"

definition default_prompt :: js_string where
  "default_prompt = js ''What's in this image?''"

text \<open>The guard of line 100.\<close>

definition rejected :: "app_state \<Rightarrow> bool" where
  "rejected s \<longleftrightarrow> (trim (inputValue s) = [] \<and> \<not> truthy (pendingImage s)) \<or> isTyping s"

text \<open>
  Line 140: \<open>!currentPendingImage && (forceImageGen || gemini.shouldGenerateImage(userText))\<close>;
  the heuristic is called only when the operators before it do not decide.
\<close>

definition isImageRequest ::
  "env \<Rightarrow> js_string \<Rightarrow> js_string option \<Rightarrow> bool \<Rightarrow> run \<Rightarrow> bool \<times> run" where
  "isImageRequest e userText currentPendingImage forceImageGen r =
     (if truthy currentPendingImage then (False, r)
      else if forceImageGen then (True, r)
      else (shouldGenerateImage e userText, emit (Invoke (ShouldGenerateImage userText)) r))"

text \<open>The branches of the \<open>try\<close> block return the exception that left them, if any.\<close>

definition image_path ::
  "env \<Rightarrow> js_string \<Rightarrow> bool \<Rightarrow> js_string \<Rightarrow> run \<Rightarrow> error option \<times> run" where
  "image_path e userText forceImageGen botMessageId r =
     (let (confirmation, r1) =
            (if forceImageGen then (Some (acknowledgement userText), r)
             else (generateTextResponse e (confirm_prompt userText) None None,
                   emit (Invoke (GenerateTextResponse (confirm_prompt userText) None None)) r))
      in case confirmation of
           None \<Rightarrow> (Some Rejected, r1)
         | Some confirmationText \<Rightarrow>
             (let r2 = setState (set_bot botMessageId [text_part confirmationText] True) r1;
                  r3 = emit (Invoke (GenerateImage userText)) r2
              in case generateImage e userText of
                   None \<Rightarrow> (Some Rejected, r3)
                 | Some imageUrl \<Rightarrow>
                     (None, setState (set_bot botMessageId
                              [text_part confirmationText, image_part imageUrl] False) r3)))"

text \<open>
  \<open>messages\<close> in line 160 is the constant of the render that created the handler: the
  turn list as it was when the handler started, which the two \<open>setMessages\<close> calls before
  it do not change.
\<close>

definition text_path ::
  "env \<Rightarrow> Message list \<Rightarrow> js_string \<Rightarrow> js_string option \<Rightarrow> js_string \<Rightarrow> run
   \<Rightarrow> error option \<times> run" where
  "text_path e msgs userText currentPendingImage botMessageId r =
     (case build_history msgs of
        Inl err \<Rightarrow> (Some err, r)
      | Inr history \<Rightarrow>
          (let prompt = (if userText \<noteq> [] then userText else default_prompt);
               img = (if truthy currentPendingImage then currentPendingImage else None);
               r1 = emit (Invoke (GenerateTextResponse prompt (Some history) img)) r
           in case generateTextResponse e prompt (Some history) img of
                None \<Rightarrow> (Some Rejected, r1)
              | Some textResponse \<Rightarrow>
                  (None, setState (set_bot botMessageId [text_part textResponse] False) r1)))"

text \<open>Lines 102 to 137: the reset of the input, the user turn, the pending agent turn.\<close>

definition userMessage :: "env \<Rightarrow> app_state \<Rightarrow> Message" where
  "userMessage e s =
     (let userText = trim (inputValue s);
          currentPendingImage = pendingImage s;
          userContent =
            (if userText \<noteq> [] then [text_part userText] else [])
            @ (if truthy currentPendingImage then [image_part (the currentPendingImage)] else [])
      in \<lparr>msg_id = toString (now_user e), msg_role = USER, msg_content = userContent,
          msg_timestamp = date_user e, isPending = None\<rparr>)"

definition botMessage :: "env \<Rightarrow> Message" where
  "botMessage e =
     \<lparr>msg_id = toString (now_bot e + 1), msg_role = AGENT, msg_content = [],
      msg_timestamp = date_bot e, isPending = Some True\<rparr>"

definition prelude :: "env \<Rightarrow> app_state \<Rightarrow> run" where
  "prelude e s =
     (let r1 = setState (\<lambda>p. p\<lparr>inputValue := []\<rparr>) (s, []);
          r2 = setState (\<lambda>p. p\<lparr>pendingImage := None\<rparr>) r1;
          r3 = setState (\<lambda>p. p\<lparr>isImageMode := False\<rparr>) r2;
          r4 = (if isListening s then emit StopRecognition r3 else r3);
          r5 = setState (\<lambda>p. p\<lparr>messages := messages p @ [userMessage e s]\<rparr>) r4;
          r6 = setState (\<lambda>p. p\<lparr>isTyping := True\<rparr>) r5
      in setState (\<lambda>p. p\<lparr>messages := messages p @ [botMessage e]\<rparr>) r6)"

text \<open>Lines 180 to 189: \<open>catch\<close> and \<open>finally\<close>.\<close>

definition catch_finally :: "js_string \<Rightarrow> error option \<times> run \<Rightarrow> run" where
  "catch_finally botMessageId tr =
     (let r = (case fst tr of
                 None \<Rightarrow> snd tr
               | Some err \<Rightarrow>
                   setState (set_bot botMessageId [text_part failure_text] False)
                     (emit (ConsoleError err) (snd tr)))
      in setState (\<lambda>p. p\<lparr>isTyping := False\<rparr>) r)"

definition handleSendMessage :: "env \<Rightarrow> app_state \<Rightarrow> run" where
  "handleSendMessage e s =
     (if rejected s then (s, [])
      else
        (let userText = trim (inputValue s);
             currentPendingImage = pendingImage s;
             forceImageGen = isImageMode s;
             botMessageId = msg_id (botMessage e);
             r = prelude e s;
             (image_request, r') = isImageRequest e userText currentPendingImage forceImageGen r
         in catch_finally botMessageId
              (if image_request then image_path e userText forceImageGen botMessageId r'
               else text_path e (messages s) userText currentPendingImage botMessageId r')))"

subsection \<open>Reading the log\<close>

fun calls_of :: "event list \<Rightarrow> call list" where
  "calls_of [] = []"
| "calls_of (Invoke c # tr) = c # calls_of tr"
| "calls_of (_ # tr) = calls_of tr"

fun states_of :: "event list \<Rightarrow> app_state list" where
  "states_of [] = []"
| "states_of (Update s # tr) = s # states_of tr"
| "states_of (_ # tr) = states_of tr"

text \<open>
  The calls that only the image path makes: the image generation itself, and the request
  for a confirmation, the one call of the text capability without a history.
\<close>

fun image_call :: "call \<Rightarrow> bool" where
  "image_call (GenerateImage p) = True"
| "image_call (GenerateTextResponse p None i) = True"
| "image_call _ = False"

definition image_path_taken :: "event list \<Rightarrow> bool" where
  "image_path_taken tr \<longleftrightarrow> list_ex image_call (calls_of tr)"

text \<open>
  What only the text path does: it calls the text capability with a history, or it leaves
  the history mapping of lines 160 to 171 with a \<open>TypeError\<close>.
\<close>

fun text_event :: "event \<Rightarrow> bool" where
  "text_event (Invoke (GenerateTextResponse p (Some h) i)) = True"
| "text_event (ConsoleError TypeError) = True"
| "text_event _ = False"

definition text_path_taken :: "event list \<Rightarrow> bool" where
  "text_path_taken tr \<longleftrightarrow> list_ex text_event tr"

subsection \<open>Observations on one exchange\<close>

text \<open>A call rejects when the capability's promise does; the heuristic is synchronous.\<close>

fun rejects :: "env \<Rightarrow> call \<Rightarrow> bool" where
  "rejects e (ShouldGenerateImage t) = False"
| "rejects e (GenerateTextResponse p h i) = (generateTextResponse e p h i = None)"
| "rejects e (GenerateImage p) = (generateImage e p = None)"

text \<open>The calls of the text capability, with their arguments.\<close>

fun text_calls :: "call list \<Rightarrow> (js_string \<times> Content list option \<times> js_string option) list" where
  "text_calls [] = []"
| "text_calls (GenerateTextResponse p h i # cs) = (p, h, i) # text_calls cs"
| "text_calls (_ # cs) = text_calls cs"

definition has_pending :: "app_state \<Rightarrow> bool" where
  "has_pending s \<longleftrightarrow> list_ex (\<lambda>m. isPending m = Some True) (messages s)"

text \<open>A turn is pending only while an exchange is running.\<close>

definition typing_inv :: "app_state \<Rightarrow> bool" where
  "typing_inv s \<longleftrightarrow> (has_pending s \<longrightarrow> isTyping s)"

text \<open>
  The data model of the turn list: every image of a part is a data-URI, as the file reader
  of line 203 and the image capability produce them.
\<close>

definition data_uri :: "js_string \<Rightarrow> bool" where
  "data_uri u \<longleftrightarrow> take 5 u = js ''data:''"


definition images_are_data_uris :: "Message list \<Rightarrow> bool" where
  "images_are_data_uris msgs \<longleftrightarrow>
     list_all (\<lambda>m. list_all (\<lambda>c. case part_image c of None \<Rightarrow> True | Some u \<Rightarrow> data_uri u)
                       (msg_content m)) msgs"

subsection \<open>\<open>exportChatHistory\<close>, lines 213 to 244\<close>

definition APP_NAME :: js_string where
  "APP_NAME = js ''Nano Banana Agent''"

definition newline :: js_string where
  "newline = [0x0A]"

text \<open>The body of the inner \<open>forEach\<close>, lines 229 and 230.\<close>

definition append_part :: "js_string \<Rightarrow> MessageContent \<Rightarrow> js_string" where
  "append_part textContent part =
     (let t1 = (if truthy (part_text part) then textContent @ the (part_text part) @ newline
                else textContent)
      in if truthy (part_image part) then t1 @ js ''[Generated Image Attached]'' @ newline else t1)"

text \<open>The body of the outer \<open>forEach\<close>, lines 224 to 232.\<close>

definition append_message :: "export_env \<Rightarrow> js_string \<Rightarrow> Message \<Rightarrow> js_string" where
  "append_message x textContent msg =
     (let time = toLocaleTimeString x (msg_timestamp msg);
          roleName = (if msg_role msg = USER then js ''USER'' else js ''NANO BANANA'');
          t1 = textContent @ js ''['' @ time @ js ''] '' @ roleName @ js '':'' @ newline;
          t2 = foldl append_part t1 (msg_content msg)
      in t2 @ newline)"

definition exportChatHistory :: "export_env \<Rightarrow> app_state \<Rightarrow> run" where
  "exportChatHistory x s =
     (if length (messages s) = 0 then emit (Alert (js ''No messages to export.'')) (s, [])
      else
        (let t1 = APP_NAME @ js '' - Conversation Export'' @ newline;
             t2 = t1 @ js ''Date: '' @ toLocaleString x @ newline;
             t3 = t2 @ js ''-------------------------------------------'' @ newline @ newline;
             textContent = foldl (append_message x) t3 (messages s);
             day = (case index (split (code CHR ''T'') (toISOString x)) 0 of
                      None \<Rightarrow> js ''undefined'' | Some d \<Rightarrow> d)
         in emit (Download (js ''nano-banana-chat-'' @ day @ js ''.txt'') textContent) (s, [])))"

text \<open>
  The transcript as the specification describes it: a header, then one block for each
  turn, in the order of the list; a block has the turn's time, the label of its role and
  one line for each text and each image of its parts.
\<close>

definition transcript_header :: "export_env \<Rightarrow> js_string" where
  "transcript_header x =
     APP_NAME @ js '' - Conversation Export'' @ newline @ js ''Date: '' @ toLocaleString x @ newline
     @ js ''-------------------------------------------'' @ newline @ newline"

definition part_lines :: "MessageContent \<Rightarrow> js_string list" where
  "part_lines part =
     (if truthy (part_text part) then [the (part_text part)] else [])
     @ (if truthy (part_image part) then [js ''[Generated Image Attached]''] else [])"

definition role_label :: "Role \<Rightarrow> js_string" where
  "role_label r = (case r of USER \<Rightarrow> js ''USER'' | AGENT \<Rightarrow> js ''NANO BANANA'')"

definition transcript_block :: "export_env \<Rightarrow> Message \<Rightarrow> js_string" where
  "transcript_block x msg =
     js ''['' @ toLocaleTimeString x (msg_timestamp msg) @ js ''] '' @ role_label (msg_role msg) @ js '':''
     @ newline
     @ concat (map (\<lambda>l. l @ newline) (concat (map part_lines (msg_content msg))))
     @ newline"

subsection \<open>Example inputs\<close>

definition png :: js_string where
  "png = js ''data:image/png;base64,QUJD''"

definition env_ok :: env where
  "env_ok = \<lparr>now_user = 41, date_user = 41, now_bot = 41, date_bot = 41,
             shouldGenerateImage = (\<lambda>t. t = js ''draw a cat''),
             generateTextResponse = (\<lambda>p h i. Some (js ''pong'')),
             generateImage = (\<lambda>p. Some png)\<rparr>"

definition env_down :: env where
  "env_down = env_ok\<lparr>generateTextResponse := (\<lambda>p h i. None), generateImage := (\<lambda>p. None)\<rparr>"

definition st_idle :: app_state where
  "st_idle = \<lparr>messages = [], inputValue = [], isTyping = False, isImageMode = False,
              isListening = False, pendingImage = None\<rparr>"

text \<open>White space only: a space, a no-break space, an em space and a line feed.\<close>

definition st_blank :: app_state where
  "st_blank = st_idle\<lparr>inputValue := [0x0020, 0x00A0, 0x2003, 0x000A]\<rparr>"

definition st_hello :: app_state where
  "st_hello = st_idle\<lparr>inputValue := js '' hello, how are you ''\<rparr>"

definition st_city :: app_state where
  "st_city = st_idle\<lparr>inputValue := js ''a cyberpunk city'', isImageMode := True\<rparr>"

definition st_photo :: app_state where
  "st_photo = st_idle\<lparr>isImageMode := True, pendingImage := Some png\<rparr>"

definition turn :: "nat \<Rightarrow> Message" where
  "turn n =
     \<lparr>msg_id = toString n, msg_role = (if even n then USER else AGENT),
      msg_content = (if n = 7 then [image_part png] else [text_part (toString n)]),
      msg_timestamp = n, isPending = (if even n then None else Some False)\<rparr>"

definition st_ten :: app_state where
  "st_ten = st_hello\<lparr>messages := map turn [0 ..< 10]\<rparr>"



text \<open>An exchange is running and the user has typed the next question.\<close>

definition st_waiting :: app_state where
  "st_waiting =
     \<lparr>messages =
        [\<lparr>msg_id = js ''41'', msg_role = USER, msg_content = [text_part (js ''hello'')],
          msg_timestamp = 41, isPending = None\<rparr>,
         \<lparr>msg_id = js ''42'', msg_role = AGENT, msg_content = [],
          msg_timestamp = 41, isPending = Some True\<rparr>],
      inputValue = js ''second question'', isTyping = True, isImageMode = False,
      isListening = False, pendingImage = None\<rparr>"

definition export_env0 :: export_env where
  "export_env0 = \<lparr>toLocaleString = js ''1/1/2026, 10:00:00 AM'',
                   toLocaleTimeString = (\<lambda>t. js ''10:00 AM''),
                   toISOString = js ''2026-01-01T10:00:00.000Z''\<rparr>"

section \<open>Properties\<close>

subsection \<open>The log and the branches\<close>

lemma fst_setState [simp]: "fst (setState f r) = f (fst r)"
  by (simp add: setState_def)

lemma snd_setState [simp]: "snd (setState f r) = snd r @ [Update (f (fst r))]"
  by (simp add: setState_def)

lemma fst_emit [simp]: "fst (emit ev r) = fst r"
  by (simp add: emit_def)

lemma snd_emit [simp]: "snd (emit ev r) = snd r @ [ev]"
  by (simp add: emit_def)

lemma calls_of_append [simp]: "calls_of (a @ b) = calls_of a @ calls_of b"
  by (induction a rule: calls_of.induct) auto

lemma states_of_append [simp]: "states_of (a @ b) = states_of a @ states_of b"
  by (induction a rule: states_of.induct) auto

lemma image_path_image_call: "list_ex image_call (calls_of (snd (snd (image_path e t f b r))))"
  by (cases f; cases "generateTextResponse e (confirm_prompt t) None None"; cases "generateImage e t")
     (simp_all add: image_path_def)

lemma image_path_text_event:
  "list_ex text_event (snd (snd (image_path e t f b r))) = list_ex text_event (snd r)"
  by (cases f; cases "generateTextResponse e (confirm_prompt t) None None"; cases "generateImage e t")
     (simp_all add: image_path_def)

lemma image_path_thrown: "fst (image_path e t f b r) \<noteq> Some TypeError"
  by (cases f; cases "generateTextResponse e (confirm_prompt t) None None"; cases "generateImage e t")
     (simp_all add: image_path_def)

text \<open>The only exception of the history mapping is the \<open>TypeError\<close> of line 166.\<close>

lemma map_part_error: "map_part c = Inl err \<Longrightarrow> err = TypeError"
  by (simp add: map_part_def Let_def split: if_splits option.splits)

lemma map_throwing_error:
  "(\<And>x err. f x = Inl err \<Longrightarrow> err = TypeError) \<Longrightarrow> map_throwing f xs = Inl err \<Longrightarrow> err = TypeError"
  by (induction xs) (auto split: sum.splits)

lemma history_entry_error: "history_entry m = Inl err \<Longrightarrow> err = TypeError"
proof -
  assume "history_entry m = Inl err"
  then have "map_throwing map_part (msg_content m) = Inl err"
    by (simp add: history_entry_def split: sum.splits)
  then show ?thesis using map_throwing_error [of map_part] map_part_error by blast
qed

lemma build_history_error: "build_history ms = Inl err \<Longrightarrow> err = TypeError"
  unfolding build_history_def using map_throwing_error [of history_entry] history_entry_error by blast

text \<open>The three ways through the text path.\<close>

lemma text_path_cases:
  obtains
    (threw) "build_history ms = Inl TypeError" "text_path e ms t i b r = (Some TypeError, r)"
  | (rejects) h where "build_history ms = Inr h"
      "generateTextResponse e (if t \<noteq> [] then t else default_prompt) (Some h)
         (if truthy i then i else None) = None"
      "text_path e ms t i b r =
         (Some Rejected,
          emit (Invoke (GenerateTextResponse (if t \<noteq> [] then t else default_prompt) (Some h)
                  (if truthy i then i else None))) r)"
  | (resolves) h resp where "build_history ms = Inr h"
      "generateTextResponse e (if t \<noteq> [] then t else default_prompt) (Some h)
         (if truthy i then i else None) = Some resp"
      "text_path e ms t i b r =
         (None, setState (set_bot b [text_part resp] False)
            (emit (Invoke (GenerateTextResponse (if t \<noteq> [] then t else default_prompt) (Some h)
                    (if truthy i then i else None))) r))"
proof (cases "build_history ms")
  case (Inl err)
  then have "err = TypeError" by (rule build_history_error)
  with Inl show ?thesis by (intro threw) (simp_all add: text_path_def)
next
  case (Inr h)
  show ?thesis
  proof (cases "generateTextResponse e (if t \<noteq> [] then t else default_prompt) (Some h)
                  (if truthy i then i else None)")
    case None
    with Inr show ?thesis by (intro rejects [of h]) (simp_all add: text_path_def Let_def)
  next
    case (Some resp)
    with Inr show ?thesis by (intro resolves [of h resp]) (simp_all add: text_path_def Let_def)
  qed
qed

lemma text_path_image_call:
  "list_ex image_call (calls_of (snd (snd (text_path e ms t i b r))))
   = list_ex image_call (calls_of (snd r))"
  by (cases rule: text_path_cases [of ms e t i b r]) simp_all

lemma text_path_text_event:
  "fst (text_path e ms t i b r) = Some TypeError
   \<or> list_ex text_event (snd (snd (text_path e ms t i b r)))"
  by (cases rule: text_path_cases [of ms e t i b r]) simp_all

lemma calls_of_prelude [simp]: "calls_of (snd (prelude e s)) = []"
  by (simp add: prelude_def Let_def)

lemma text_event_prelude [simp]: "\<not> list_ex text_event (snd (prelude e s))"
  by (simp add: prelude_def Let_def)

lemma calls_of_catch_finally [simp]:
  "calls_of (snd (catch_finally b tr)) = calls_of (snd (snd tr))"
  by (cases "fst tr") (simp_all add: catch_finally_def)

lemma text_event_catch_finally [simp]:
  "list_ex text_event (snd (catch_finally b tr))
   \<longleftrightarrow> fst tr = Some TypeError \<or> list_ex text_event (snd (snd tr))"
proof (cases "fst tr")
  case None
  then show ?thesis by (simp add: catch_finally_def)
next
  case (Some err)
  then show ?thesis by (cases err) (simp_all add: catch_finally_def)
qed

subsection \<open>The guard\<close>

text \<open>\<open>trim\<close> on the white space beyond ASCII.\<close>

lemma trim_examples:
  "trim ([0x00A0] @ js ''hi'' @ [0x00A0]) = js ''hi''"
  "trim [0x00A0] = []"
  "trim ([0xFEFF, 0x2028] @ js ''a b'' @ [0x3000, 0x000D]) = js ''a b''"
  by (simp_all add: trim_def whitespace_def js_def)

text \<open>
  C4. A submission whose trimmed text is empty and that has no attached image is
  rejected: the handler returns the state it was given, so the turn list is unchanged,
  and its log is empty, so no capability was called.
\<close>

theorem empty_submission_noop:
  "trim (inputValue s) = [] \<Longrightarrow> \<not> truthy (pendingImage s) \<Longrightarrow> handleSendMessage e s = (s, [])"
  by (simp add: handleSendMessage_def rejected_def)

theorem empty_submission_noop_witness:
  "inputValue st_blank = [0x0020, 0x00A0, 0x2003, 0x000A]
   \<and> trim (inputValue st_blank) = [] \<and> \<not> truthy (pendingImage st_blank)
   \<and> handleSendMessage env_ok st_blank = (st_blank, [])
   \<and> calls_of (snd (handleSendMessage env_ok st_blank)) = []"
  using empty_submission_noop [of st_blank env_ok]
  by (simp add: st_blank_def st_idle_def trim_def whitespace_def js_def)

subsection \<open>The choice of the path\<close>

lemma path_taken:
  assumes "\<not> rejected s"
  shows "image_path_taken (snd (handleSendMessage e s)) \<longleftrightarrow>
           \<not> truthy (pendingImage s)
           \<and> (isImageMode s \<or> shouldGenerateImage e (trim (inputValue s)))"
    and "text_path_taken (snd (handleSendMessage e s)) \<longleftrightarrow>
           \<not> (\<not> truthy (pendingImage s)
               \<and> (isImageMode s \<or> shouldGenerateImage e (trim (inputValue s))))"
  using assms text_path_text_event
  by (simp_all add: handleSendMessage_def Let_def isImageRequest_def image_path_taken_def
      text_path_taken_def image_path_image_call image_path_text_event image_path_thrown
      text_path_image_call)

text \<open>
  C1. For an accepted submission the image path is taken exactly when no image is
  attached and the image mode is on or the heuristic says yes on the trimmed text; the
  text path is taken exactly otherwise. With an attached image the text path is taken
  and the image path is not, whatever the image mode.
\<close>

theorem path_decision:
  assumes "\<not> rejected s"
  shows "(image_path_taken (snd (handleSendMessage e s)) \<longleftrightarrow>
           \<not> truthy (pendingImage s)
           \<and> (isImageMode s \<or> shouldGenerateImage e (trim (inputValue s))))
       \<and> (text_path_taken (snd (handleSendMessage e s)) \<longleftrightarrow>
           \<not> (\<not> truthy (pendingImage s)
               \<and> (isImageMode s \<or> shouldGenerateImage e (trim (inputValue s)))))
       \<and> (truthy (pendingImage s) \<longrightarrow>
            text_path_taken (snd (handleSendMessage e s))
            \<and> \<not> image_path_taken (snd (handleSendMessage e s)))"
  using path_taken [OF assms, of e] by simp

theorem path_decision_witness:
  "\<not> rejected st_photo \<and> truthy (pendingImage st_photo) \<and> isImageMode st_photo
   \<and> text_path_taken (snd (handleSendMessage env_ok st_photo))
   \<and> \<not> image_path_taken (snd (handleSendMessage env_ok st_photo))"
  using path_decision [of st_photo env_ok]
  by (simp add: st_photo_def st_idle_def rejected_def png_def js_def)

subsection \<open>The history of the text path\<close>

lemma split_nonempty: "split c xs \<noteq> []"
  by (induction xs) (auto split: list.splits)

lemma split_no_separator: "c \<notin> set xs \<Longrightarrow> split c xs = [xs]"
  by (induction xs) auto

lemma split_at_first: "c \<notin> set a \<Longrightarrow> split c (a @ c # b) = a # split c b"
  by (induction a) auto

lemma map_part_text: "map_part (text_part t) = Inr (TextPart t)"
  by (simp add: map_part_def text_part_def)

lemma map_part_data_uri_form:
  assumes m: "code CHR '','' \<notin> set mime" "code CHR '':'' \<notin> set mime" "code CHR '';'' \<notin> set mime"
    and d: "code CHR '','' \<notin> set payload"
  shows "map_part (image_part (js ''data:'' @ mime @ js '';base64,'' @ payload))
         = Inr (InlineData (Some payload) (Some mime))"
proof -
  let ?header = "js ''data:'' @ mime @ js '';base64''"
  have u: "js ''data:'' @ mime @ js '';base64,'' @ payload = ?header @ code CHR '','' # payload"
    by (simp add: js_def)
  have nc: "code CHR '','' \<notin> set ?header" using m by (simp add: js_def)
  have pieces: "split (code CHR '','') (js ''data:'' @ mime @ js '';base64,'' @ payload) = [?header, payload]"
    unfolding u using split_at_first [OF nc, of payload] split_no_separator [OF d] by simp
  have h: "?header = js ''data'' @ code CHR '':'' # (mime @ js '';base64'')" by (simp add: js_def)
  have nd: "code CHR '':'' \<notin> set (js ''data'')" by (simp add: js_def)
  have nm: "code CHR '':'' \<notin> set (mime @ js '';base64'')" using m by (simp add: js_def)
  have colon: "split (code CHR '':'') ?header = [js ''data'', mime @ js '';base64'']"
    unfolding h using split_at_first [OF nd, of "mime @ js '';base64''"] split_no_separator [OF nm]
    by simp
  have nb: "code CHR '';'' \<notin> set (js ''base64'')" by (simp add: js_def)
  have semi: "split (code CHR '';'') (mime @ js '';base64'') = [mime, js ''base64'']"
    using split_at_first [OF m(3), of "js ''base64''"] split_no_separator [OF nb]
    by (simp add: js_def)
  have i0: "index [?header, payload] 0 = Some ?header" by simp
  have i1: "index [?header, payload] 1 = Some payload" by simp
  have c1: "index (split (code CHR '':'') ?header) 1 = Some (mime @ js '';base64'')"
    unfolding colon by simp
  have s0: "index (split (code CHR '';'') (mime @ js '';base64'')) 0 = Some mime"
    unfolding semi by simp
  show ?thesis
    unfolding map_part_def image_part_def
    apply (simp only: MessageContent.simps truthy.simps option.sel Let_def pieces i0 i1 c1 s0
        option.case if_False if_True)
    apply (simp add: js_def)
    done
qed

text \<open>
  C7. In the history mapping a text part maps to \<open>{text}\<close>, and an image part whose
  data-URI is \<open>data:<mime>;base64,<data>\<close> maps to \<open>{inlineData: {data, mimeType}}\<close>
  with the declared MIME type and the payload without the header. A MIME type has none
  of the separators \<open>,\<close> \<open>:\<close> \<open>;\<close> and a base64 payload has no comma.
\<close>

theorem history_part_mapping:
  "map_part (text_part t) = Inr (TextPart t)
   \<and> (code CHR '','' \<notin> set mime \<and> code CHR '':'' \<notin> set mime \<and> code CHR '';'' \<notin> set mime
        \<and> code CHR '','' \<notin> set payload \<longrightarrow>
      map_part (image_part (js ''data:'' @ mime @ js '';base64,'' @ payload))
      = Inr (InlineData (Some payload) (Some mime)))"
  using map_part_text map_part_data_uri_form by blast

theorem history_part_mapping_witness:
  "map_part (text_part (js ''hi'')) = Inr (TextPart (js ''hi''))
   \<and> code CHR '','' \<notin> set (js ''image/png'') \<and> code CHR '':'' \<notin> set (js ''image/png'')
   \<and> code CHR '';'' \<notin> set (js ''image/png'')
   \<and> code CHR '','' \<notin> set (js ''QUJD'')
   \<and> map_part (image_part png) = Inr (InlineData (Some (js ''QUJD'')) (Some (js ''image/png'')))"
  using history_part_mapping [of "js ''hi''" "js ''image/png''" "js ''QUJD''"]
  by (simp add: png_def js_def)


lemma index_split_0: "\<exists>p. index (split c xs) 0 = Some p"
  using split_nonempty [of c xs] by (cases "split c xs") simp_all

lemma split_skip: "x \<noteq> c \<Longrightarrow> \<exists>p ps. split c xs = p # ps \<and> split c (x # xs) = (x # p) # ps"
  using split_nonempty [of c xs] by (cases "split c xs") simp_all

lemma map_part_data_uri:
  assumes "case part_image c of None \<Rightarrow> True | Some u \<Rightarrow> data_uri u"
  shows "\<exists>p. map_part c = Inr p"
proof (cases "truthy (part_text c)")
  case True
  then show ?thesis by (simp add: map_part_def)
next
  case no_text: False
  show ?thesis
  proof (cases "truthy (part_image c)")
    case False
    with no_text show ?thesis by (simp add: map_part_def)
  next
    case True
    then obtain u where u: "part_image c = Some u" by (cases "part_image c") simp_all
    with assms have "take 5 u = js ''data:''" by (simp add: data_uri_def)
    then have "u = js ''data:'' @ drop 5 u" by (metis append_take_drop_id)
    then obtain rest where rest: "u = js ''data:'' @ rest" ..
    obtain p ps where p: "split (code CHR '','') rest = p # ps"
      using split_nonempty [of "code CHR '',''" rest] by (cases "split (code CHR '','') rest") simp_all
    have pieces: "split (code CHR '','') u = (js ''data:'' @ p) # ps"
      unfolding rest using p by (simp add: js_def)
    obtain q where q: "index (split (code CHR '':'') p) 0 = Some q"
      using index_split_0 by blast
    have colon: "index (split (code CHR '':'') (js ''data:'' @ p)) 1 = Some q"
      using q by (simp add: js_def)
    show ?thesis
      using no_text True u pieces colon by (simp add: map_part_def Let_def)
  qed
qed

lemma map_throwing_Inr:
  "map_throwing f xs = Inr ys \<longleftrightarrow> list_all2 (\<lambda>x y. f x = Inr y) xs ys"
proof (induction xs arbitrary: ys)
  case Nil
  then show ?case by auto
next
  case (Cons x xs)
  show ?case
  proof (cases "f x")
    case (Inl err)
    then show ?thesis by (auto simp add: list_all2_Cons1)
  next
    case fx: (Inr y)
    show ?thesis
    proof (cases "map_throwing f xs")
      case (Inl err)
      with fx Cons.IH show ?thesis by (auto simp add: list_all2_Cons1)
    next
      case (Inr zs)
      with fx Cons.IH show ?thesis by (auto simp add: list_all2_Cons1)
    qed
  qed
qed

lemma map_throwing_total:
  "(\<And>x. x \<in> set xs \<Longrightarrow> \<exists>y. f x = Inr y) \<Longrightarrow> \<exists>ys. map_throwing f xs = Inr ys"
proof (induction xs)
  case Nil
  then show ?case by simp
next
  case (Cons x xs)
  then obtain y ys where "f x = Inr y" "map_throwing f xs = Inr ys" by (meson list.set_intros)
  then show ?case by simp
qed

lemma history_entry_total:
  assumes "list_all (\<lambda>c. case part_image c of None \<Rightarrow> True | Some u \<Rightarrow> data_uri u) (msg_content m)"
  shows "\<exists>c. history_entry m = Inr c"
proof -
  have "\<exists>ps. map_throwing map_part (msg_content m) = Inr ps"
    using assms by (intro map_throwing_total map_part_data_uri) (simp add: list_all_iff)
  then show ?thesis by (auto simp add: history_entry_def)
qed

lemma build_history_total:
  assumes "images_are_data_uris msgs"
  shows "\<exists>h. build_history msgs = Inr h"
  unfolding build_history_def
proof (rule map_throwing_total)
  fix m assume "m \<in> set (slice_last 6 msgs)"
  then have "m \<in> set msgs" unfolding slice_last_def by (rule in_set_dropD)
  with assms show "\<exists>c. history_entry m = Inr c"
    by (intro history_entry_total) (simp add: images_are_data_uris_def list_all_iff)
qed

lemma text_calls_append [simp]: "text_calls (a @ b) = text_calls a @ text_calls b"
  by (induction a rule: text_calls.induct) auto

lemma text_submission_calls:
  assumes acc: "\<not> rejected s"
    and tpt: "text_path_taken (snd (handleSendMessage e s))"
  shows "text_calls (calls_of (snd (handleSendMessage e s)))
         = (case build_history (messages s) of
              Inl err \<Rightarrow> []
            | Inr h \<Rightarrow>
                [(if trim (inputValue s) \<noteq> [] then trim (inputValue s) else default_prompt, Some h,
                  if truthy (pendingImage s) then pendingImage s else None)])"
proof -
  let ?t = "trim (inputValue s)"
  let ?b = "msg_id (botMessage e)"
  have no_image: "\<not> (\<not> truthy (pendingImage s) \<and> (isImageMode s \<or> shouldGenerateImage e ?t))"
    using path_taken(2) [OF acc, of e] tpt by simp
  define r where "r = snd (isImageRequest e ?t (pendingImage s) (isImageMode s) (prelude e s))"
  have req: "fst (isImageRequest e ?t (pendingImage s) (isImageMode s) (prelude e s)) = False"
    using no_image by (auto simp add: isImageRequest_def)
  have r_calls: "text_calls (calls_of (snd r)) = []"
    unfolding r_def by (simp add: isImageRequest_def)
  have run: "handleSendMessage e s
             = catch_finally ?b (text_path e (messages s) ?t (pendingImage s) ?b r)"
    using acc req by (simp add: handleSendMessage_def Let_def r_def split_beta)
  show ?thesis
    unfolding run
    using r_calls
    by (cases rule: text_path_cases [of "messages s" e ?t "pendingImage s" ?b r]) simp_all
qed





lemma length_slice_last: "length (slice_last n xs) = min n (length xs)"
  by (simp add: slice_last_def)

lemma slice_last_drop: "slice_last n xs = drop (length xs - min n (length xs)) xs"
  by (simp add: slice_last_def min_def)

lemma history_entry_Inr:
  "history_entry m = Inr c \<Longrightarrow>
     role c = (if msg_role m = USER then js ''user'' else js ''model'')
     \<and> map_throwing map_part (msg_content m) = Inr (parts c)"
  by (auto simp add: history_entry_def split: sum.splits)

lemma build_history_window:
  assumes "build_history msgs = Inr h"
  shows "length h = min 6 (length msgs)
         \<and> list_all2
              (\<lambda>m c. role c = (if msg_role m = USER then js ''user'' else js ''model'')
                     \<and> list_all2 (\<lambda>part q. map_part part = Inr q) (msg_content m) (parts c))
              (drop (length msgs - min 6 (length msgs)) msgs) h"
proof -
  have all2: "list_all2 (\<lambda>m c. history_entry m = Inr c) (slice_last 6 msgs) h"
    using assms by (simp add: build_history_def map_throwing_Inr)
  have len: "length h = min 6 (length msgs)"
    using list_all2_lengthD [OF all2] by (simp add: length_slice_last)
  have "list_all2
          (\<lambda>m c. role c = (if msg_role m = USER then js ''user'' else js ''model'')
                 \<and> list_all2 (\<lambda>part q. map_part part = Inr q) (msg_content m) (parts c))
          (slice_last 6 msgs) h"
    using all2 by (rule list_all2_mono) (auto dest!: history_entry_Inr simp add: map_throwing_Inr)
  then show ?thesis using len by (simp add: slice_last_drop [symmetric])
qed

text \<open>
  C2. On the text path every history passed to the text capability has one entry for
  each of the last \<open>min 6 N\<close> of the \<open>N\<close> turns that the list had before the new pair was
  appended, in their order, with the role \<open>user\<close> for a user turn and \<open>model\<close> for an
  agent turn and with the parts mapped one by one; the new pair is not in it. With the
  images of the turn list data-URIs the call is made.
\<close>

theorem history_window:
  assumes "\<not> rejected s"
    and "text_path_taken (snd (handleSendMessage e s))"
  shows "(\<forall>c \<in> set (text_calls (calls_of (snd (handleSendMessage e s)))).
            \<exists>h. fst (snd c) = Some h
              \<and> length h = min 6 (length (messages s))
              \<and> list_all2
                   (\<lambda>m c. role c = (if msg_role m = USER then js ''user'' else js ''model'')
                          \<and> list_all2 (\<lambda>part q. map_part part = Inr q) (msg_content m) (parts c))
                   (drop (length (messages s) - min 6 (length (messages s))) (messages s)) h)
       \<and> (images_are_data_uris (messages s) \<longrightarrow>
            length (text_calls (calls_of (snd (handleSendMessage e s)))) = 1)"
proof (cases "build_history (messages s)")
  case (Inl err)
  then have "\<not> images_are_data_uris (messages s)"
    using build_history_total [of "messages s"] by auto
  with Inl text_submission_calls [OF assms] show ?thesis by simp
next
  case (Inr h)
  with text_submission_calls [OF assms] build_history_window [OF Inr] show ?thesis by simp
qed

theorem history_window_witness:
  "\<not> rejected st_ten \<and> text_path_taken (snd (handleSendMessage env_ok st_ten))
   \<and> images_are_data_uris (messages st_ten) \<and> length (messages st_ten) = 10
   \<and> (\<exists>p h i. text_calls (calls_of (snd (handleSendMessage env_ok st_ten))) = [(p, Some h, i)]
          \<and> length h = 6
          \<and> list_all2
               (\<lambda>m c. role c = (if msg_role m = USER then js ''user'' else js ''model'')
                      \<and> list_all2 (\<lambda>part q. map_part part = Inr q) (msg_content m) (parts c))
               (drop 4 (messages st_ten)) h)"
proof -
  have acc: "\<not> rejected st_ten"
    by (simp add: st_ten_def st_hello_def st_idle_def rejected_def trim_def whitespace_def js_def)
  have tp: "text_path_taken (snd (handleSendMessage env_ok st_ten))"
    using path_taken(2) [OF acc, of env_ok]
    by (simp add: st_ten_def st_hello_def st_idle_def trim_def whitespace_def js_def env_ok_def)
  have uris: "images_are_data_uris (messages st_ten)"
    by (simp add: st_ten_def st_hello_def st_idle_def images_are_data_uris_def turn_def upt_rec
        png_def image_part_def text_part_def data_uri_def js_def)
  have len: "length (messages st_ten) = 10"
    by (simp add: st_ten_def)
  note hw = history_window [OF acc tp]
  from hw uris have "length (text_calls (calls_of (snd (handleSendMessage env_ok st_ten)))) = 1"
    by blast
  then obtain p ho i where c: "text_calls (calls_of (snd (handleSendMessage env_ok st_ten))) = [(p, ho, i)]"
    by (cases "text_calls (calls_of (snd (handleSendMessage env_ok st_ten)))") auto
  with hw len obtain h where "ho = Some h" "length h = 6"
    "list_all2
       (\<lambda>m c. role c = (if msg_role m = USER then js ''user'' else js ''model'')
              \<and> list_all2 (\<lambda>part q. map_part part = Inr q) (msg_content m) (parts c))
       (drop 4 (messages st_ten)) h"
    by auto
  with c acc tp uris len show ?thesis by blast
qed




subsection \<open>The course of an accepted submission\<close>

lemma toString_nonempty: "toString n \<noteq> []"
  by (subst toString.simps) simp

lemma digit_inject: "a < 10 \<Longrightarrow> b < 10 \<Longrightarrow> digit a = digit b \<Longrightarrow> a = b"
proof -
  assume a: "a < 10" and b: "b < 10" and eq: "digit a = digit b"
  from eq have "take_bit LENGTH(16) (48 + a) = take_bit LENGTH(16) (48 + b)"
    unfolding digit_def by (simp only: word_of_nat_eq_iff)
  moreover have "48 + a < 2 ^ LENGTH(16)" "48 + b < 2 ^ LENGTH(16)"
    using a b by simp_all
  ultimately show "a = b" by (simp add: take_bit_nat_eq_self)
qed

lemma toString_inject: "toString m = toString n \<Longrightarrow> m = n"
proof (induction m arbitrary: n rule: toString.induct)
  case (1 m)
  show ?case
  proof (cases "m < 10")
    case m: True
    show ?thesis
    proof (cases "n < 10")
      case True
      with m "1.prems" show ?thesis
        by (simp add: toString.simps [of m] toString.simps [of n] digit_inject)
    next
      case False
      with m "1.prems" toString_nonempty [of "n div 10"] show ?thesis
        by (simp add: toString.simps [of m] toString.simps [of n])
    qed
  next
    case m: False
    show ?thesis
    proof (cases "n < 10")
      case True
      with m "1.prems" toString_nonempty [of "m div 10"] show ?thesis
        by (simp add: toString.simps [of m] toString.simps [of n])
    next
      case False
      with m "1.prems" have eq: "toString (m div 10) = toString (n div 10)"
        and d: "digit (m mod 10) = digit (n mod 10)"
        by (simp_all add: toString.simps [of m] toString.simps [of n])
      from "1.IH" [OF m eq] have "m div 10 = n div 10" .
      moreover from d have "m mod 10 = n mod 10" by (intro digit_inject) simp_all
      ultimately show ?thesis by (metis div_mult_mod_eq)
    qed
  qed
qed

lemma fst_prelude:
  "fst (prelude e s)
   = s\<lparr>inputValue := [], pendingImage := None, isImageMode := False,
       messages := messages s @ [userMessage e s, botMessage e], isTyping := True\<rparr>"
  by (simp add: prelude_def Let_def)

lemma snd_prelude:
  "snd (prelude e s)
   = [Update (s\<lparr>inputValue := []\<rparr>),
      Update (s\<lparr>inputValue := [], pendingImage := None\<rparr>),
      Update (s\<lparr>inputValue := [], pendingImage := None, isImageMode := False\<rparr>)]
     @ (if isListening s then [StopRecognition] else [])
     @ [Update (s\<lparr>inputValue := [], pendingImage := None, isImageMode := False,
                   messages := messages s @ [userMessage e s]\<rparr>),
        Update (s\<lparr>inputValue := [], pendingImage := None, isImageMode := False,
                   messages := messages s @ [userMessage e s], isTyping := True\<rparr>),
        Update (fst (prelude e s))]"
  by (simp add: prelude_def Let_def)

lemma set_bot_fields [simp]:
  "inputValue (set_bot b c p s) = inputValue s"
  "pendingImage (set_bot b c p s) = pendingImage s"
  "isImageMode (set_bot b c p s) = isImageMode s"
  "isTyping (set_bot b c p s) = isTyping s"
  "isListening (set_bot b c p s) = isListening s"
  by (simp_all add: set_bot_def)

lemma set_bot_absorb: "set_bot b c' p' (set_bot b c p s) = set_bot b c' p' s"
  by (simp add: set_bot_def comp_def cong: if_cong)

text \<open>The three ways through the image path.\<close>

lemma image_path_cases:
  fixes e t f b r
  defines "ra \<equiv> (if f then r else emit (Invoke (GenerateTextResponse (confirm_prompt t) None None)) r)"
  obtains
    (ack_rejects) "\<not> f" "generateTextResponse e (confirm_prompt t) None None = None"
      "image_path e t f b r = (Some Rejected, ra)"
  | (image_rejects) conf where
      "if f then conf = acknowledgement t
       else generateTextResponse e (confirm_prompt t) None None = Some conf"
      "generateImage e t = None"
      "image_path e t f b r
       = (Some Rejected,
          emit (Invoke (GenerateImage t)) (setState (set_bot b [text_part conf] True) ra))"
  | (image_resolves) conf url where
      "if f then conf = acknowledgement t
       else generateTextResponse e (confirm_prompt t) None None = Some conf"
      "generateImage e t = Some url"
      "image_path e t f b r
       = (None,
          setState (set_bot b [text_part conf, image_part url] False)
            (emit (Invoke (GenerateImage t)) (setState (set_bot b [text_part conf] True) ra)))"
proof (cases f)
  case True
  show ?thesis
  proof (cases "generateImage e t")
    case None
    with True show ?thesis
      by (intro image_rejects [of "acknowledgement t"]) (simp_all add: image_path_def ra_def)
  next
    case (Some url)
    with True show ?thesis
      by (intro image_resolves [of "acknowledgement t" url]) (simp_all add: image_path_def ra_def)
  qed
next
  case False
  show ?thesis
  proof (cases "generateTextResponse e (confirm_prompt t) None None")
    case None
    with False show ?thesis by (intro ack_rejects) (simp_all add: image_path_def ra_def)
  next
    case conf: (Some conf)
    show ?thesis
    proof (cases "generateImage e t")
      case None
      with False conf show ?thesis
        by (intro image_rejects [of conf]) (simp_all add: image_path_def ra_def)
    next
      case (Some url)
      with False conf show ?thesis
        by (intro image_resolves [of conf url]) (simp_all add: image_path_def ra_def)
    qed
  qed
qed

text \<open>An accepted submission: the prelude, the heuristic where it is asked, a branch, the end.\<close>

lemma accepted_run:
  fixes e s
  assumes "\<not> rejected s"
  defines "t \<equiv> trim (inputValue s)"
  defines "b \<equiv> msg_id (botMessage e)"
  defines "r \<equiv> (if \<not> truthy (pendingImage s) \<and> \<not> isImageMode s
                 then emit (Invoke (ShouldGenerateImage t)) (prelude e s) else prelude e s)"
  shows "handleSendMessage e s
         = catch_finally b
             (if \<not> truthy (pendingImage s) \<and> (isImageMode s \<or> shouldGenerateImage e t)
              then image_path e t (isImageMode s) b r
              else text_path e (messages s) t (pendingImage s) b r)"
  using assms(1) by (simp add: handleSendMessage_def Let_def isImageRequest_def t_def b_def r_def)


text \<open>Every accepted submission ends in one of six ways; the state and the log of each.\<close>

lemma accepted_cases [consumes 1]:
  fixes e s
  assumes acc: "\<not> rejected s"
  defines "t \<equiv> trim (inputValue s)"
  defines "b \<equiv> msg_id (botMessage e)"
  defines "P \<equiv> fst (prelude e s)"
  defines "pre \<equiv> snd (prelude e s)
                 @ (if \<not> truthy (pendingImage s) \<and> \<not> isImageMode s
                    then [Invoke (ShouldGenerateImage t)] else [])"
  defines "prompt \<equiv> (if t \<noteq> [] then t else default_prompt)"
  defines "img \<equiv> (if truthy (pendingImage s) then pendingImage s else None)"
  defines "ack \<equiv> (if isImageMode s then []
                  else [Invoke (GenerateTextResponse (confirm_prompt t) None None)])"
  defines "failed \<equiv> set_bot b [text_part failure_text] False P"
  obtains
    (text_threw)
      "\<not> (\<not> truthy (pendingImage s) \<and> (isImageMode s \<or> shouldGenerateImage e t))"
      "build_history (messages s) = Inl TypeError"
      "handleSendMessage e s
       = (failed\<lparr>isTyping := False\<rparr>,
          pre @ [ConsoleError TypeError, Update failed, Update (failed\<lparr>isTyping := False\<rparr>)])"
  | (text_rejects) h where
      "\<not> (\<not> truthy (pendingImage s) \<and> (isImageMode s \<or> shouldGenerateImage e t))"
      "build_history (messages s) = Inr h"
      "generateTextResponse e prompt (Some h) img = None"
      "handleSendMessage e s
       = (failed\<lparr>isTyping := False\<rparr>,
          pre @ [Invoke (GenerateTextResponse prompt (Some h) img), ConsoleError Rejected,
                 Update failed, Update (failed\<lparr>isTyping := False\<rparr>)])"
  | (text_resolves) h resp where
      "\<not> (\<not> truthy (pendingImage s) \<and> (isImageMode s \<or> shouldGenerateImage e t))"
      "build_history (messages s) = Inr h"
      "generateTextResponse e prompt (Some h) img = Some resp"
      "handleSendMessage e s
       = ((set_bot b [text_part resp] False P)\<lparr>isTyping := False\<rparr>,
          pre @ [Invoke (GenerateTextResponse prompt (Some h) img),
                 Update (set_bot b [text_part resp] False P),
                 Update ((set_bot b [text_part resp] False P)\<lparr>isTyping := False\<rparr>)])"
  | (ack_rejects)
      "\<not> truthy (pendingImage s)" "\<not> isImageMode s" "shouldGenerateImage e t"
      "generateTextResponse e (confirm_prompt t) None None = None"
      "handleSendMessage e s
       = (failed\<lparr>isTyping := False\<rparr>,
          pre @ ack @ [ConsoleError Rejected, Update failed, Update (failed\<lparr>isTyping := False\<rparr>)])"
  | (image_rejects) conf where
      "\<not> truthy (pendingImage s)" "isImageMode s \<or> shouldGenerateImage e t"
      "if isImageMode s then conf = acknowledgement t
       else generateTextResponse e (confirm_prompt t) None None = Some conf"
      "generateImage e t = None"
      "handleSendMessage e s
       = (failed\<lparr>isTyping := False\<rparr>,
          pre @ ack @ [Update (set_bot b [text_part conf] True P), Invoke (GenerateImage t),
                       ConsoleError Rejected, Update failed,
                       Update (failed\<lparr>isTyping := False\<rparr>)])"
  | (image_resolves) conf url where
      "\<not> truthy (pendingImage s)" "isImageMode s \<or> shouldGenerateImage e t"
      "if isImageMode s then conf = acknowledgement t
       else generateTextResponse e (confirm_prompt t) None None = Some conf"
      "generateImage e t = Some url"
      "handleSendMessage e s
       = ((set_bot b [text_part conf, image_part url] False P)\<lparr>isTyping := False\<rparr>,
          pre @ ack @ [Update (set_bot b [text_part conf] True P), Invoke (GenerateImage t),
                       Update (set_bot b [text_part conf, image_part url] False P),
                       Update ((set_bot b [text_part conf, image_part url] False P)
                                 \<lparr>isTyping := False\<rparr>)])"
proof -
  define r where "r = (if \<not> truthy (pendingImage s) \<and> \<not> isImageMode s
                       then emit (Invoke (ShouldGenerateImage t)) (prelude e s) else prelude e s)"
  have fr: "fst r = P" and sr: "snd r = pre"
    by (simp_all add: r_def P_def pre_def)
  have run: "handleSendMessage e s
         = catch_finally b
             (if \<not> truthy (pendingImage s) \<and> (isImageMode s \<or> shouldGenerateImage e t)
              then image_path e t (isImageMode s) b r
              else text_path e (messages s) t (pendingImage s) b r)"
    using accepted_run [OF acc, of e] by (simp add: t_def b_def r_def)
  show ?thesis
  proof (cases "\<not> truthy (pendingImage s) \<and> (isImageMode s \<or> shouldGenerateImage e t)")
    case False
    have run': "handleSendMessage e s
        = catch_finally b (text_path e (messages s) t (pendingImage s) b r)"
      unfolding run using False by auto
    show ?thesis
    proof (cases rule: text_path_cases [of "messages s" e t "pendingImage s" b r])
      case threw
      with False show ?thesis
        by (intro text_threw)
          (simp_all add: run' catch_finally_def fr sr prod_eq_iff failed_def)
    next
      case (rejects h)
      with False show ?thesis
        by (intro text_rejects [of h])
          (simp_all add: run' catch_finally_def fr sr prod_eq_iff failed_def prompt_def img_def)
    next
      case (resolves h resp)
      with False show ?thesis
        by (intro text_resolves [of h resp])
          (simp_all add: run' catch_finally_def fr sr prod_eq_iff prompt_def img_def)
    qed
  next
    case True
    have run': "handleSendMessage e s = catch_finally b (image_path e t (isImageMode s) b r)"
      unfolding run using True by auto
    show ?thesis
    proof (cases rule: image_path_cases [of "isImageMode s" e t b r])
      case ack_rejects
      with True show ?thesis
        by (intro that(4))
          (simp_all add: run' catch_finally_def fr sr prod_eq_iff failed_def ack_def)
    next
      case (image_rejects conf)
      with True show ?thesis
        by (intro that(5) [of conf])
          (simp_all add: run' catch_finally_def fr sr prod_eq_iff failed_def ack_def set_bot_absorb)
    next
      case (image_resolves conf url)
      with True show ?thesis
        by (intro that(6) [of conf url])
          (simp_all add: run' catch_finally_def fr sr prod_eq_iff ack_def set_bot_absorb)
    qed
  qed
qed


lemma last_set_bot_prelude:
  "last (messages (set_bot (msg_id (botMessage e)) c p (fst (prelude e s))))
   = (botMessage e)\<lparr>msg_content := c, isPending := Some p\<rparr>"
  by (simp add: set_bot_def fst_prelude)

lemma ids_set_bot_prelude:
  "map msg_id (messages (set_bot b c p (fst (prelude e s))))
   = map msg_id (messages s) @ [msg_id (userMessage e s), msg_id (botMessage e)]"
  by (simp add: set_bot_def fst_prelude comp_def if_distrib [of msg_id] cong: if_cong)

lemma user_turn_set_bot_prelude:
  assumes "now_user e \<le> now_bot e"
  shows "messages (set_bot (msg_id (botMessage e)) c p (fst (prelude e s))) ! length (messages s)
         = userMessage e s"
proof -
  have "toString (now_user e) \<noteq> toString (now_bot e + 1)"
    using assms toString_inject [of "now_user e" "now_bot e + 1"] by auto
  then have "msg_id (userMessage e s) \<noteq> msg_id (botMessage e)"
    by (simp add: userMessage_def botMessage_def Let_def)
  then show ?thesis
    by (simp add: set_bot_def fst_prelude nth_append)
qed

lemmas run_defs =
  handleSendMessage_def rejected_def prelude_def catch_finally_def isImageRequest_def
  image_path_def text_path_def userMessage_def botMessage_def setState_def emit_def set_bot_def
  trim_def whitespace_def js_def Let_def

text \<open>
  C3. Every accepted submission ends with \<open>isTyping\<close> false, whether it succeeds or
  fails. When a capability call of the exchange rejects, the agent turn, the last of the
  list, ends with the one text part \<open>The generation failed. Please refine your prompt and
  try again.\<close> and is no longer pending; the turns that were in the list and the two
  appended by the exchange are all still there, and the user turn is as it was appended
  (the clock not running backwards between the two turns, so that their ids differ).
\<close>

theorem failure_is_terminal:
  assumes "\<not> rejected s"
  shows "\<not> isTyping (fst (handleSendMessage e s))
       \<and> (list_ex (rejects e) (calls_of (snd (handleSendMessage e s))) \<longrightarrow>
            last (messages (fst (handleSendMessage e s)))
              = \<lparr>msg_id = toString (now_bot e + 1), msg_role = AGENT,
                 msg_content =
                   [\<lparr>part_text =
                       Some (js ''The generation failed. Please refine your prompt and try again.''),
                     part_image = None\<rparr>],
                 msg_timestamp = date_bot e, isPending = Some False\<rparr>
            \<and> map msg_id (messages (fst (handleSendMessage e s)))
              = map msg_id (messages s) @ [toString (now_user e), toString (now_bot e + 1)]
            \<and> (now_user e \<le> now_bot e \<longrightarrow>
                 messages (fst (handleSendMessage e s)) ! length (messages s) = userMessage e s))"
proof -
  have last_failed:
    "last (messages (set_bot (msg_id (botMessage e)) [text_part failure_text] False
                       (fst (prelude e s))))
     = \<lparr>msg_id = toString (now_bot e + 1), msg_role = AGENT,
        msg_content =
          [\<lparr>part_text =
              Some (js ''The generation failed. Please refine your prompt and try again.''),
            part_image = None\<rparr>],
        msg_timestamp = date_bot e, isPending = Some False\<rparr>"
    unfolding last_set_bot_prelude
    by (simp add: botMessage_def text_part_def failure_text_def)
  have ids:
    "map msg_id (messages (set_bot b c p (fst (prelude e s))))
     = map msg_id (messages s) @ [toString (now_user e), toString (now_bot e + 1)]" for b c p
    unfolding ids_set_bot_prelude
    by (simp add: userMessage_def botMessage_def Let_def)
  from assms show ?thesis
  proof (cases rule: accepted_cases [of s e])
    case text_threw
    then show ?thesis by (simp add: last_failed ids user_turn_set_bot_prelude)
  next
    case (text_rejects h)
    then show ?thesis by (simp add: last_failed ids user_turn_set_bot_prelude)
  next
    case (text_resolves h resp)
    then show ?thesis by simp
  next
    case ack_rejects
    then show ?thesis by (simp add: last_failed ids user_turn_set_bot_prelude)
  next
    case (image_rejects conf)
    then show ?thesis by (simp add: last_failed ids user_turn_set_bot_prelude)
  next
    case (image_resolves conf url)
    then show ?thesis by (cases "isImageMode s") simp_all
  qed
qed

theorem failure_is_terminal_witness:
  "\<not> rejected st_city
   \<and> generateImage env_down (js ''a cyberpunk city'') = None
   \<and> list_ex (rejects env_down) (calls_of (snd (handleSendMessage env_down st_city)))
   \<and> now_user env_down \<le> now_bot env_down
   \<and> \<not> isTyping (fst (handleSendMessage env_down st_city))
   \<and> last (messages (fst (handleSendMessage env_down st_city)))
     = \<lparr>msg_id = js ''42'', msg_role = AGENT,
        msg_content =
          [\<lparr>part_text =
              Some (js ''The generation failed. Please refine your prompt and try again.''),
            part_image = None\<rparr>],
        msg_timestamp = 41, isPending = Some False\<rparr>
   \<and> messages (fst (handleSendMessage env_down st_city)) ! 0
     = \<lparr>msg_id = js ''41'', msg_role = USER,
        msg_content = [\<lparr>part_text = Some (js ''a cyberpunk city''), part_image = None\<rparr>],
        msg_timestamp = 41, isPending = None\<rparr>"
proof -
  have acc: "\<not> rejected st_city"
    by (simp add: st_city_def st_idle_def rejected_def trim_def whitespace_def js_def)
  have down: "generateImage env_down (js ''a cyberpunk city'') = None"
    by (simp add: env_down_def env_ok_def)
  have calls: "calls_of (snd (handleSendMessage env_down st_city))
               = [GenerateImage (js ''a cyberpunk city'')]"
    by (simp add: run_defs st_city_def st_idle_def env_down_def env_ok_def)
  have rej: "list_ex (rejects env_down) (calls_of (snd (handleSendMessage env_down st_city)))"
    unfolding calls by (simp add: env_down_def env_ok_def)
  have clock: "now_user env_down \<le> now_bot env_down"
    by (simp add: env_down_def env_ok_def)
  have ids: "toString (now_bot env_down + 1) = js ''42''" "date_bot env_down = 41"
    by (simp_all add: env_down_def env_ok_def toString.simps digit_def js_def)
  have user: "userMessage env_down st_city
     = \<lparr>msg_id = js ''41'', msg_role = USER,
        msg_content = [\<lparr>part_text = Some (js ''a cyberpunk city''), part_image = None\<rparr>],
        msg_timestamp = 41, isPending = None\<rparr>"
    by (simp add: userMessage_def st_city_def st_idle_def env_down_def env_ok_def toString.simps
        digit_def trim_def whitespace_def js_def text_part_def Let_def)
  have len: "length (messages st_city) = 0"
    by (simp add: st_city_def st_idle_def)
  note run = failure_is_terminal [OF acc, of env_down, unfolded ids user len]
  from run rej clock
  have "\<not> isTyping (fst (handleSendMessage env_down st_city))"
    and "last (messages (fst (handleSendMessage env_down st_city)))
     = \<lparr>msg_id = js ''42'', msg_role = AGENT,
        msg_content =
          [\<lparr>part_text =
              Some (js ''The generation failed. Please refine your prompt and try again.''),
            part_image = None\<rparr>],
        msg_timestamp = 41, isPending = Some False\<rparr>"
    and "messages (fst (handleSendMessage env_down st_city)) ! 0
     = \<lparr>msg_id = js ''41'', msg_role = USER,
        msg_content = [\<lparr>part_text = Some (js ''a cyberpunk city''), part_image = None\<rparr>],
        msg_timestamp = 41, isPending = None\<rparr>"
    by blast+
  with acc down rej clock show ?thesis by blast
qed

text \<open>
  C6. On the image path with the image mode on and the image capability resolving, the
  acknowledgement is the fixed template around the trimmed text. The log ends with the
  update that sets the agent turn to the acknowledgement alone, still pending, then the
  call of the image capability, then the update that sets the agent turn to the
  acknowledgement and the image, no longer pending, then the last update, which leaves
  the agent turn so; no capability is called before.
\<close>

theorem forced_image_exchange:
  assumes "\<not> rejected s"
    and "isImageMode s"
    and "image_path_taken (snd (handleSendMessage e s))"
    and "generateImage e (trim (inputValue s)) = Some url"
  shows "acknowledgement (trim (inputValue s))
         = js ''Initiating Banana Vision... Crafting high-fidelity visualization for: '' @ [0x22]
           @ trim (inputValue s) @ [0x22]
       \<and> (\<exists>pre s_ack s_img.
            snd (handleSendMessage e s)
              = pre @ [Update s_ack, Invoke (GenerateImage (trim (inputValue s))), Update s_img,
                       Update (fst (handleSendMessage e s))]
            \<and> calls_of pre = []
            \<and> last (messages s_ack)
              = (botMessage e)\<lparr>msg_content := [text_part (acknowledgement (trim (inputValue s)))],
                               isPending := Some True\<rparr>
            \<and> last (messages s_img)
              = (botMessage e)\<lparr>msg_content := [text_part (acknowledgement (trim (inputValue s))),
                                               image_part url],
                               isPending := Some False\<rparr>
            \<and> last (messages (fst (handleSendMessage e s))) = last (messages s_img))"
proof -
  have no_image: "\<not> truthy (pendingImage s)"
    using path_taken(1) [OF assms(1), of e] assms(3) by simp
  from assms(1) show ?thesis
  proof (cases rule: accepted_cases [of s e])
    case (image_resolves conf url')
    with assms(2,4) have conf: "conf = acknowledgement (trim (inputValue s))" and url: "url' = url"
      by simp_all
    have ack: "acknowledgement (trim (inputValue s))
         = js ''Initiating Banana Vision... Crafting high-fidelity visualization for: '' @ [0x22]
           @ trim (inputValue s) @ [0x22]"
      by (simp add: acknowledgement_def)
    have "\<exists>pre s_ack s_img.
            snd (handleSendMessage e s)
              = pre @ [Update s_ack, Invoke (GenerateImage (trim (inputValue s))), Update s_img,
                       Update (fst (handleSendMessage e s))]
            \<and> calls_of pre = []
            \<and> last (messages s_ack)
              = (botMessage e)\<lparr>msg_content := [text_part (acknowledgement (trim (inputValue s)))],
                               isPending := Some True\<rparr>
            \<and> last (messages s_img)
              = (botMessage e)\<lparr>msg_content := [text_part (acknowledgement (trim (inputValue s))),
                                               image_part url],
                               isPending := Some False\<rparr>
            \<and> last (messages (fst (handleSendMessage e s))) = last (messages s_img)"
      unfolding image_resolves(5) conf url
      apply (rule exI [of _ "snd (prelude e s)"])
      apply (rule exI [of _ "set_bot (msg_id (botMessage e))
                [text_part (acknowledgement (trim (inputValue s)))] True (fst (prelude e s))"])
      apply (rule exI [of _ "set_bot (msg_id (botMessage e))
                [text_part (acknowledgement (trim (inputValue s))), image_part url] False
                (fst (prelude e s))"])
      using assms(2) no_image
      apply (simp add: last_set_bot_prelude)
      done
    with ack show ?thesis by (rule conjI)
  qed (use assms no_image in simp_all)
qed


theorem forced_image_exchange_witness:
  "\<not> rejected st_city \<and> isImageMode st_city
   \<and> image_path_taken (snd (handleSendMessage env_ok st_city))
   \<and> generateImage env_ok (trim (inputValue st_city)) = Some png
   \<and> trim (inputValue st_city) = js ''a cyberpunk city''
   \<and> (\<exists>pre s_ack s_img.
          snd (handleSendMessage env_ok st_city)
            = pre @ [Update s_ack, Invoke (GenerateImage (js ''a cyberpunk city'')), Update s_img,
                     Update (fst (handleSendMessage env_ok st_city))]
          \<and> calls_of pre = []
          \<and> last (messages s_ack)
            = (botMessage env_ok)\<lparr>msg_content := [text_part (acknowledgement (js ''a cyberpunk city''))],
                                   isPending := Some True\<rparr>
          \<and> last (messages s_img)
            = (botMessage env_ok)\<lparr>msg_content := [text_part (acknowledgement (js ''a cyberpunk city'')),
                                                   image_part png],
                                   isPending := Some False\<rparr>
          \<and> last (messages (fst (handleSendMessage env_ok st_city))) = last (messages s_img))"
proof -
  have acc: "\<not> rejected st_city"
    by (simp add: st_city_def st_idle_def rejected_def trim_def whitespace_def js_def)
  have force: "isImageMode st_city"
    by (simp add: st_city_def st_idle_def)
  have ip: "image_path_taken (snd (handleSendMessage env_ok st_city))"
    using path_taken(1) [OF acc, of env_ok] by (simp add: st_city_def st_idle_def)
  have t: "trim (inputValue st_city) = js ''a cyberpunk city''"
    by (simp add: st_city_def st_idle_def trim_def whitespace_def js_def)
  have img: "generateImage env_ok (trim (inputValue st_city)) = Some png"
    by (simp add: env_ok_def)
  note run = forced_image_exchange [OF acc force ip img, unfolded t]
  show ?thesis
    by (intro conjI acc force ip img t conjunct2 [OF run])
qed

lemma cleared_set_bot:
  "inputValue (set_bot b c p (fst (prelude e s))) = []
   \<and> pendingImage (set_bot b c p (fst (prelude e s))) = None
   \<and> \<not> isImageMode (set_bot b c p (fst (prelude e s)))"
  by (simp add: fst_prelude)

subsection \<open>The reset of the input\<close>

text \<open>
  C10. The first three events of an accepted submission are the updates that clear the
  input text, the pending image and the image mode, and after them the state differs from
  the one before in these three fields only; they come before every call of a capability.
  The three fields are clear in every later state of the exchange and in its last, so the
  image mode holds for the one submission during which it was on.
\<close>

theorem input_reset:
  assumes "\<not> rejected s"
  shows "\<exists>rest.
           snd (handleSendMessage e s)
             = [Update (s\<lparr>inputValue := []\<rparr>),
                Update (s\<lparr>inputValue := [], pendingImage := None\<rparr>),
                Update (s\<lparr>inputValue := [], pendingImage := None, isImageMode := False\<rparr>)]
               @ rest
           \<and> (\<forall>s' \<in> set (states_of rest).
                 inputValue s' = [] \<and> pendingImage s' = None \<and> \<not> isImageMode s')
           \<and> inputValue (fst (handleSendMessage e s)) = []
           \<and> pendingImage (fst (handleSendMessage e s)) = None
           \<and> \<not> isImageMode (fst (handleSendMessage e s))"
  using assms
proof (cases rule: accepted_cases [of s e])
  case text_threw
  show ?thesis unfolding text_threw(3) snd_prelude by (simp add: fst_prelude)
next
  case (text_rejects h)
  show ?thesis unfolding text_rejects(4) snd_prelude by (simp add: fst_prelude)
next
  case (text_resolves h resp)
  show ?thesis unfolding text_resolves(4) snd_prelude by (simp add: fst_prelude)
next
  case ack_rejects
  show ?thesis unfolding ack_rejects(5) snd_prelude by (simp add: fst_prelude)
next
  case (image_rejects conf)
  show ?thesis unfolding image_rejects(5) snd_prelude by (simp add: fst_prelude)
next
  case (image_resolves conf url)
  show ?thesis unfolding image_resolves(5) snd_prelude by (simp add: fst_prelude)
qed


theorem input_reset_witness:
  "\<not> rejected st_photo \<and> isImageMode st_photo \<and> pendingImage st_photo = Some png
   \<and> (\<exists>rest.
           snd (handleSendMessage env_ok st_photo)
             = [Update (st_photo\<lparr>inputValue := []\<rparr>),
                Update (st_photo\<lparr>inputValue := [], pendingImage := None\<rparr>),
                Update (st_photo\<lparr>inputValue := [], pendingImage := None, isImageMode := False\<rparr>)]
               @ rest
           \<and> (\<forall>s' \<in> set (states_of rest).
                 inputValue s' = [] \<and> pendingImage s' = None \<and> \<not> isImageMode s')
           \<and> inputValue (fst (handleSendMessage env_ok st_photo)) = []
           \<and> pendingImage (fst (handleSendMessage env_ok st_photo)) = None
           \<and> \<not> isImageMode (fst (handleSendMessage env_ok st_photo)))"
proof -
  have acc: "\<not> rejected st_photo"
    by (simp add: st_photo_def st_idle_def rejected_def png_def js_def)
  have force: "isImageMode st_photo" and img: "pendingImage st_photo = Some png"
    by (simp_all add: st_photo_def st_idle_def)
  show ?thesis
    by (intro conjI acc force img input_reset [OF acc])
qed

subsection \<open>One exchange at a time\<close>

lemma has_pending_fields [simp]:
  "has_pending (s\<lparr>inputValue := v\<rparr>) = has_pending s"
  "has_pending (s\<lparr>pendingImage := i\<rparr>) = has_pending s"
  "has_pending (s\<lparr>isImageMode := m\<rparr>) = has_pending s"
  "has_pending (s\<lparr>isTyping := ty\<rparr>) = has_pending s"
  by (simp_all add: has_pending_def)

lemma no_pending_user_turn:
  "has_pending (p\<lparr>messages := messages s @ [userMessage e s]\<rparr>) = has_pending s"
  by (simp add: has_pending_def userMessage_def Let_def)

lemma no_pending_settled:
  assumes "\<not> has_pending s"
  shows "\<not> has_pending (set_bot (msg_id (botMessage e)) c False (fst (prelude e s)))"
  using assms
  by (auto simp add: has_pending_def set_bot_def fst_prelude list_ex_iff userMessage_def Let_def)

lemma typing_prelude: "isTyping (fst (prelude e s))"
  by (simp add: fst_prelude)

lemma typing_guard: "typing_inv s \<Longrightarrow> has_pending s \<Longrightarrow> handleSendMessage e s = (s, [])"
  by (simp add: typing_inv_def handleSendMessage_def rejected_def)

lemma typing_inv_exchange:
  assumes inv: "typing_inv s"
  shows "typing_inv (fst (handleSendMessage e s))
         \<and> (\<forall>s' \<in> set (states_of (snd (handleSendMessage e s))). typing_inv s')"
proof (cases "rejected s")
  case True
  with inv show ?thesis by (simp add: handleSendMessage_def)
next
  case False
  then have "\<not> isTyping s" by (simp add: rejected_def)
  with inv have np: "\<not> has_pending s" by (auto simp add: typing_inv_def)
  note facts = typing_inv_def np no_pending_user_turn no_pending_settled [OF np]
    typing_prelude
  have pre: "\<forall>s' \<in> set (states_of (snd (prelude e s))). typing_inv s'"
    unfolding snd_prelude using np
    by (simp add: typing_inv_def no_pending_user_turn fst_prelude)
  from False show ?thesis
  proof (cases rule: accepted_cases [of s e])
    case text_threw
    show ?thesis unfolding text_threw(3) using pre by (simp add: facts)
  next
    case (text_rejects h)
    show ?thesis unfolding text_rejects(4) using pre by (simp add: facts)
  next
    case (text_resolves h resp)
    show ?thesis unfolding text_resolves(4) using pre by (simp add: facts)
  next
    case ack_rejects
    show ?thesis unfolding ack_rejects(5) using pre by (simp add: facts)
  next
    case (image_rejects conf)
    show ?thesis unfolding image_rejects(5) using pre by (simp add: facts)
  next
    case (image_resolves conf url)
    show ?thesis unfolding image_resolves(5) using pre by (simp add: facts)
  qed
qed

text \<open>The other two handlers that write the turn list keep the invariant too.\<close>

lemma typing_inv_handleUpdateMessage:
  "typing_inv s \<Longrightarrow> typing_inv (handleUpdateMessage messageId updatedContent s)"
  by (auto simp add: typing_inv_def has_pending_def handleUpdateMessage_def list_ex_iff
      split: if_splits)

lemma typing_inv_clearChat: "typing_inv s \<Longrightarrow> typing_inv (clearChat confirmed s)"
  by (simp add: typing_inv_def has_pending_def clearChat_def)

text \<open>
  C5. In a state where a turn is pending only while an exchange runs, every state that an
  exchange goes through is such a state again, and in each of them that has a pending
  turn a submission is rejected whatever the user has typed or attached in the meantime:
  it returns the state unchanged and calls no capability.
\<close>

theorem one_exchange_in_flight:
  assumes "typing_inv s"
  shows "typing_inv (fst (handleSendMessage e s))
       \<and> (\<forall>s' \<in> set (s # states_of (snd (handleSendMessage e s))).
             typing_inv s'
             \<and> (has_pending s' \<longrightarrow>
                  (\<forall>e' v i m.
                     handleSendMessage e' (s'\<lparr>inputValue := v, pendingImage := i, isImageMode := m\<rparr>)
                     = (s'\<lparr>inputValue := v, pendingImage := i, isImageMode := m\<rparr>, []))))"
proof -
  have guard: "handleSendMessage e' (s'\<lparr>inputValue := v, pendingImage := i, isImageMode := m\<rparr>)
               = (s'\<lparr>inputValue := v, pendingImage := i, isImageMode := m\<rparr>, [])"
    if "typing_inv s'" "has_pending s'" for s' e' v i m
    using that by (simp add: typing_inv_def handleSendMessage_def rejected_def)
  show ?thesis
    using typing_inv_exchange [OF assms, of e] assms guard by simp
qed

lemma prelude_state_in_log:
  assumes "\<not> rejected s"
  shows "fst (prelude e s) \<in> set (states_of (snd (handleSendMessage e s)))"
  using assms
proof (cases rule: accepted_cases [of s e])
  case text_threw
  show ?thesis unfolding text_threw(3) snd_prelude by simp
next
  case (text_rejects h)
  show ?thesis unfolding text_rejects(4) snd_prelude by simp
next
  case (text_resolves h resp)
  show ?thesis unfolding text_resolves(4) snd_prelude by simp
next
  case ack_rejects
  show ?thesis unfolding ack_rejects(5) snd_prelude by simp
next
  case (image_rejects conf)
  show ?thesis unfolding image_rejects(5) snd_prelude by simp
next
  case (image_resolves conf url)
  show ?thesis unfolding image_resolves(5) snd_prelude by simp
qed

lemma has_pending_prelude: "has_pending (fst (prelude e s))"
  by (simp add: fst_prelude has_pending_def botMessage_def)

text \<open>
  Two submissions that only the guard on \<open>isTyping\<close> stops, both with a question typed
  and a pending agent turn: one in a state of the log of a running exchange, one in a
  state given as it is.
\<close>

theorem one_exchange_in_flight_witness:
  "typing_inv st_hello
   \<and> fst (prelude env_ok st_hello)
       \<in> set (st_hello # states_of (snd (handleSendMessage env_ok st_hello)))
   \<and> has_pending (fst (prelude env_ok st_hello))
   \<and> trim (js ''second question'') \<noteq> []
   \<and> handleSendMessage env_ok
        ((fst (prelude env_ok st_hello))
           \<lparr>inputValue := js ''second question'', pendingImage := None, isImageMode := False\<rparr>)
     = ((fst (prelude env_ok st_hello))
           \<lparr>inputValue := js ''second question'', pendingImage := None, isImageMode := False\<rparr>, [])
   \<and> typing_inv st_waiting \<and> has_pending st_waiting \<and> isTyping st_waiting
   \<and> trim (inputValue st_waiting) \<noteq> []
   \<and> handleSendMessage env_ok st_waiting = (st_waiting, [])"
proof -
  have inv: "typing_inv st_hello"
    by (simp add: typing_inv_def has_pending_def st_hello_def st_idle_def)
  have acc: "\<not> rejected st_hello"
    by (simp add: st_hello_def st_idle_def rejected_def trim_def whitespace_def js_def)
  have mem: "fst (prelude env_ok st_hello)
             \<in> set (st_hello # states_of (snd (handleSendMessage env_ok st_hello)))"
    using prelude_state_in_log [OF acc, of env_ok] by simp
  have pending: "has_pending (fst (prelude env_ok st_hello))"
    by (rule has_pending_prelude)
  have typed: "trim (js ''second question'') \<noteq> []"
    by (simp add: trim_def whitespace_def js_def)
  from one_exchange_in_flight [OF inv, of env_ok] mem pending
  have first: "handleSendMessage env_ok
        ((fst (prelude env_ok st_hello))
           \<lparr>inputValue := js ''second question'', pendingImage := None, isImageMode := False\<rparr>)
     = ((fst (prelude env_ok st_hello))
           \<lparr>inputValue := js ''second question'', pendingImage := None, isImageMode := False\<rparr>, [])"
    by blast
  have inv': "typing_inv st_waiting" and pending': "has_pending st_waiting"
    and typing': "isTyping st_waiting"
    by (simp_all add: typing_inv_def has_pending_def st_waiting_def)
  have typed': "trim (inputValue st_waiting) \<noteq> []"
    by (simp add: st_waiting_def trim_def whitespace_def js_def)
  have same: "st_waiting\<lparr>inputValue := inputValue st_waiting, pendingImage := pendingImage st_waiting,
                         isImageMode := isImageMode st_waiting\<rparr> = st_waiting"
    by simp
  from one_exchange_in_flight [OF inv', of env_ok] pending'
  have "handleSendMessage env_ok
          (st_waiting\<lparr>inputValue := inputValue st_waiting, pendingImage := pendingImage st_waiting,
                       isImageMode := isImageMode st_waiting\<rparr>)
        = (st_waiting\<lparr>inputValue := inputValue st_waiting, pendingImage := pendingImage st_waiting,
                       isImageMode := isImageMode st_waiting\<rparr>, [])"
    by (metis list.set_intros(1))
  then have second: "handleSendMessage env_ok st_waiting = (st_waiting, [])"
    unfolding same .
  show ?thesis
    by (intro conjI inv mem pending typed first inv' pending' typing' typed' second)
qed

subsection \<open>The export\<close>

lemma foldl_append_part:
  "foldl append_part acc ps = acc @ concat (map (\<lambda>l. l @ newline) (concat (map part_lines ps)))"
  by (induction ps arbitrary: acc) (simp_all add: append_part_def part_lines_def Let_def)

lemma append_message_block: "append_message x acc msg = acc @ transcript_block x msg"
  by (cases "msg_role msg")
     (simp_all add: append_message_def transcript_block_def role_label_def foldl_append_part Let_def)

lemma foldl_append_message:
  "foldl (append_message x) acc msgs = acc @ concat (map (transcript_block x) msgs)"
  by (induction msgs arbitrary: acc) (simp_all add: append_message_block)

text \<open>
  C9. The export of an empty turn list raises the notice, downloads nothing and leaves
  the state as it is. The export of a list of \<open>N\<close> turns downloads the header followed
  by \<open>N\<close> blocks, one for each turn in the order of the list; a block has the time of the
  turn and the label of its role, a text part is its text on a line and an image part is
  the placeholder on a line.
\<close>

theorem export_transcript:
  "(messages s = [] \<longrightarrow> exportChatHistory x s = (s, [Alert (js ''No messages to export.'')]))
   \<and> (messages s \<noteq> [] \<longrightarrow>
        (\<exists>name. exportChatHistory x s
                 = (s, [Download name
                          (transcript_header x @ concat (map (transcript_block x) (messages s)))])))
   \<and> length (map (transcript_block x) (messages s)) = length (messages s)
   \<and> (t \<noteq> [] \<longrightarrow> part_lines (text_part t) = [t])
   \<and> (u \<noteq> [] \<longrightarrow> part_lines (image_part u) = [js ''[Generated Image Attached]''])"
  by (simp add: exportChatHistory_def Let_def emit_def foldl_append_message transcript_header_def
      part_lines_def text_part_def image_part_def)


theorem export_transcript_witness:
  "messages st_idle = []
   \<and> exportChatHistory export_env0 st_idle = (st_idle, [Alert (js ''No messages to export.'')])
   \<and> messages st_ten \<noteq> []
   \<and> (\<exists>name. exportChatHistory export_env0 st_ten
               = (st_ten, [Download name
                    (transcript_header export_env0
                     @ concat (map (transcript_block export_env0) (messages st_ten)))]))
   \<and> length (map (transcript_block export_env0) (messages st_ten)) = 10
   \<and> (js ''hi'') \<noteq> [] \<and> part_lines (text_part (js ''hi'')) = [js ''hi'']
   \<and> png \<noteq> [] \<and> part_lines (image_part png) = [js ''[Generated Image Attached]'']"
proof -
  have empty: "messages st_idle = []" by (simp add: st_idle_def)
  have ten: "messages st_ten \<noteq> []" "length (messages st_ten) = 10" by (simp_all add: st_ten_def)
  have ne: "(js ''hi'') \<noteq> []" "png \<noteq> []" by (simp_all add: png_def js_def)
  from export_transcript [of st_idle export_env0] empty
  have a: "exportChatHistory export_env0 st_idle = (st_idle, [Alert (js ''No messages to export.'')])"
    by blast
  note b = export_transcript [of st_ten export_env0 "js ''hi''" png]
  from b ten(1) have c: "\<exists>name. exportChatHistory export_env0 st_ten
               = (st_ten, [Download name
                    (transcript_header export_env0
                     @ concat (map (transcript_block export_env0) (messages st_ten)))])"
    by blast
  from b ten(2) have d: "length (map (transcript_block export_env0) (messages st_ten)) = 10"
    by simp
  from b ne have f: "part_lines (text_part (js ''hi'')) = [js ''hi'']"
    and g: "part_lines (image_part png) = [js ''[Generated Image Attached]'']"
    by blast+
  show ?thesis by (intro conjI empty a ten(1) c d ne f g)
qed

subsection \<open>The data model is kept\<close>

text \<open>
  An exchange keeps the images of the turn list data-URIs, when the attached image is one
  and the image capability returns one.
\<close>

lemma data_uris_exchange:
  assumes uris: "images_are_data_uris (messages s)"
    and attached: "case pendingImage s of None \<Rightarrow> True | Some u \<Rightarrow> u = [] \<or> data_uri u"
    and capability: "\<And>p u. generateImage e p = Some u \<Longrightarrow> data_uri u"
  shows "images_are_data_uris (messages (fst (handleSendMessage e s)))"
proof (cases "rejected s")
  case True
  with uris show ?thesis by (simp add: handleSendMessage_def)
next
  case False
  have user: "list_all (\<lambda>c. case part_image c of None \<Rightarrow> True | Some u \<Rightarrow> data_uri u)
                (msg_content (userMessage e s))"
    using attached
    by (cases "pendingImage s") (auto simp add: userMessage_def Let_def text_part_def image_part_def)
  have settle: "images_are_data_uris (messages (set_bot b c p (fst (prelude e s))))"
    if "list_all (\<lambda>c. case part_image c of None \<Rightarrow> True | Some u \<Rightarrow> data_uri u) c" for b c p
    using that uris user
    by (auto simp add: images_are_data_uris_def set_bot_def fst_prelude list_all_iff botMessage_def)
  from False show ?thesis
  proof (cases rule: accepted_cases [of s e])
    case (image_resolves conf url)
    from capability [OF image_resolves(4)] show ?thesis
      unfolding image_resolves(5) by (simp add: settle text_part_def image_part_def)
  qed (simp_all add: settle text_part_def)
qed

end
